theory Spec2Isabelle
  imports Main "HOL-Library.Word"
begin

section \<open>The dynamic array of the Jester stdlib\<close>

text \<open>
  The container of \<^verbatim>\<open>jester_dynamic_array.c\<close> (functions returning \<^verbatim>\<open>bool\<close>) and its
  older twin \<^verbatim>\<open>jester-dynamic-array.c\<close> (functions returning \<^verbatim>\<open>void\<close>), embedded as
  functions on a record of the four fields of \<^verbatim>\<open>struct DynamicArray\<close>.

  \<^item> \<^verbatim>\<open>size_t\<close> is a 64-bit word: \<open>*\<close>, \<open>+\<close> and \<open>-\<close> wrap around as in C.
  \<^item> The array owns its storage exclusively, so the \<^verbatim>\<open>data\<close> pointer is modelled by the
    block it points to: \<open>None\<close> is \<^verbatim>\<open>NULL\<close>, \<open>Some bs\<close> an allocated block whose
    bytes are \<open>bs\<close> (its length is the size that was requested from the allocator).
  \<^item> A read or write that leaves the block, or goes through \<^verbatim>\<open>NULL\<close>, is undefined
    behaviour in C; in the model it is the result \<open>Inl\<close> of a fault.
  \<^item> A call after which the \<^verbatim>\<open>data\<close> field points to storage that the allocator has
    released is the result \<open>Inl Dangling\<close>: the function has returned (\<^verbatim>\<open>false\<close>, where
    it returns a value) and the four fields hold what they held, but no block belongs to
    the array any more, and every later use of its storage is undefined.
\<close>

type_synonym size_t = "64 word"
type_synonym byte = "8 word"

record DynamicArray =
  data :: "byte list option"
  count :: size_t
  capacity :: size_t
  element_size :: size_t

datatype fault = NullAccess | OutOfBounds | Dangling

subsection \<open>The allocator\<close>

text \<open>
  \<^verbatim>\<open>malloc\<close> and \<^verbatim>\<open>realloc\<close> belong to the C library. Whether a request is granted,
  and what the fresh bytes hold, is not decided by the program: each call takes the
  allocator's answer as a parameter.
  \<^item> \<open>AllocOk f\<close> grants the request, the byte at offset \<open>i\<close> of fresh memory being
    \<open>f i\<close>. A granted \<^verbatim>\<open>realloc\<close> keeps the bytes up to the smaller of the two sizes.
  \<^item> \<open>AllocFail\<close> is the \<^verbatim>\<open>NULL\<close> return that leaves the heap alone: a failed
    \<^verbatim>\<open>realloc\<close> keeps the old block as it was.
  \<^item> \<open>AllocRelease\<close> is the \<^verbatim>\<open>NULL\<close> return of an allocator that answers
    \<^verbatim>\<open>realloc(p, 0)\<close> on an allocated \<^verbatim>\<open>p\<close> by releasing \<^verbatim>\<open>p\<close>, as the C standard
    allows and glibc does. For every other request it is \<open>AllocFail\<close>.
  A request of zero bytes may be answered in any of these ways.
\<close>

datatype alloc = AllocFail | AllocOk "nat \<Rightarrow> byte" | AllocRelease

definition malloc :: "alloc \<Rightarrow> nat \<Rightarrow> byte list option" where
  "malloc r n =
     (case r of
        AllocFail \<Rightarrow> None
      | AllocOk f \<Rightarrow> Some (map f [0..<n])
      | AllocRelease \<Rightarrow> None)"

text \<open>
  What a call of \<^verbatim>\<open>realloc\<close> does: \<open>Granted bs\<close> returns the new block \<open>bs\<close> (the old
  one is gone), \<open>Refused\<close> returns \<^verbatim>\<open>NULL\<close> and keeps the old block, \<open>Released\<close> returns
  \<^verbatim>\<open>NULL\<close> and has released the old block.
\<close>

datatype realloc_result = Granted "byte list" | Refused | Released

definition realloc :: "alloc \<Rightarrow> byte list option \<Rightarrow> nat \<Rightarrow> realloc_result" where
  "realloc r p n =
     (case r of
        AllocFail \<Rightarrow> Refused
      | AllocOk f \<Rightarrow>
          (let old = (case p of None \<Rightarrow> [] | Some bs \<Rightarrow> bs)
           in Granted (take n old @ map f [length old..<n]))
      | AllocRelease \<Rightarrow> if n = 0 \<and> p \<noteq> None then Released else Refused)"

text \<open>The answers that return \<^verbatim>\<open>NULL\<close>.\<close>

definition refuses :: "alloc \<Rightarrow> bool" where
  "refuses r = (case r of AllocFail \<Rightarrow> True | AllocOk f \<Rightarrow> False | AllocRelease \<Rightarrow> True)"

subsection \<open>Memory access\<close>

text \<open>
  \<^verbatim>\<open>memcpy\<close> is split in its two halves: \<open>load_bytes p off n\<close> reads \<open>n\<close> bytes at
  offset \<open>off\<close> of the block \<open>p\<close>, \<open>store_bytes p off bs\<close> writes \<open>bs\<close> there.
\<close>

definition load_bytes :: "byte list option \<Rightarrow> nat \<Rightarrow> nat \<Rightarrow> fault + byte list" where
  "load_bytes p off n =
     (case p of
        None \<Rightarrow> Inl NullAccess
      | Some b \<Rightarrow> if off + n \<le> length b then Inr (take n (drop off b)) else Inl OutOfBounds)"

definition store_bytes :: "byte list option \<Rightarrow> nat \<Rightarrow> byte list \<Rightarrow> fault + byte list" where
  "store_bytes p off bs =
     (case p of
        None \<Rightarrow> Inl NullAccess
      | Some b \<Rightarrow>
          if off + length bs \<le> length b
          then Inr (take off b @ bs @ drop (off + length bs) b)
          else Inl OutOfBounds)"

subsection \<open>The operations (\<^verbatim>\<open>jester_dynamic_array.c\<close>)\<close>

text \<open>The value of \<^verbatim>\<open>DynamicArray_t dynamic_array = {}\<close>: every field zero.\<close>

definition zeroed :: DynamicArray where
  "zeroed = \<lparr>data = None, count = 0, capacity = 0, element_size = 0\<rparr>"

definition create_dynamic_array :: "alloc \<Rightarrow> size_t \<Rightarrow> size_t \<Rightarrow> DynamicArray" where
  "create_dynamic_array r es cap =
     (let total_byte = es * cap
      in case malloc r (unat total_byte) of
           None \<Rightarrow> zeroed
         | Some blk \<Rightarrow> zeroed\<lparr>data := Some blk, element_size := es, count := 0, capacity := cap\<rparr>)"

text \<open>
  \<open>d\<close> is the object the caller's \<^verbatim>\<open>const void* data\<close> points to; \<^verbatim>\<open>memcpy\<close> reads
  its first \<^verbatim>\<open>element_size\<close> bytes.
\<close>

definition push_dynamic_array ::
    "alloc \<Rightarrow> DynamicArray \<Rightarrow> byte list \<Rightarrow> fault + (bool \<times> DynamicArray)" where
  "push_dynamic_array r a d =
     (let grown =
        (if count a = capacity a
         then (let new_capacity = capacity a * 2;
                   new_size = element_size a * new_capacity
               in case realloc r (data a) (unat new_size) of
                    Granted temp_ptr \<Rightarrow>
                      Inr (Some (a\<lparr>data := Some temp_ptr, capacity := new_capacity\<rparr>))
                  | Refused \<Rightarrow> Inr None
                  | Released \<Rightarrow> Inl Dangling)
         else Inr (Some a))
      in case grown of
           Inl e \<Rightarrow> Inl e
         | Inr None \<Rightarrow> Inr (False, a)
         | Inr (Some a1) \<Rightarrow>
             (case load_bytes (Some d) 0 (unat (element_size a1)) of
                Inl e \<Rightarrow> Inl e
              | Inr bs \<Rightarrow>
                  (case store_bytes (data a1) (unat (count a1 * element_size a1)) bs of
                     Inl e \<Rightarrow> Inl e
                   | Inr blk \<Rightarrow> Inr (True, a1\<lparr>data := Some blk, count := count a1 + 1\<rparr>))))"

text \<open>
  The pointer returned by \<^verbatim>\<open>get_dynamic_array_element\<close> is \<^verbatim>\<open>a->data\<close> plus a byte
  offset; the model returns the offset, \<open>None\<close> for \<^verbatim>\<open>NULL\<close>. \<open>load_element\<close> is the
  caller reading one element through such a pointer.
\<close>

definition get_dynamic_array_element :: "DynamicArray \<Rightarrow> size_t \<Rightarrow> nat option" where
  "get_dynamic_array_element a i =
     (if i \<ge> count a then None else Some (unat (element_size a * i)))"

definition load_element :: "DynamicArray \<Rightarrow> nat \<Rightarrow> fault + byte list" where
  "load_element a off = load_bytes (data a) off (unat (element_size a))"

definition clear_dynamic_array :: "DynamicArray \<Rightarrow> bool \<times> DynamicArray" where
  "clear_dynamic_array a = (True, a\<lparr>count := 0\<rparr>)"

definition free_dynamic_array :: "DynamicArray \<Rightarrow> bool \<times> DynamicArray" where
  "free_dynamic_array a =
     (if data a \<noteq> None
      then (True, a\<lparr>data := None, count := 0, capacity := 0, element_size := 0\<rparr>)
      else (False, a))"

definition reserve_dynamic_array ::
    "alloc \<Rightarrow> DynamicArray \<Rightarrow> size_t \<Rightarrow> fault + (bool \<times> DynamicArray)" where
  "reserve_dynamic_array r a new_capacity =
     (if capacity a \<ge> new_capacity then Inr (True, a)
      else (let new_size = new_capacity * element_size a
            in case realloc r (data a) (unat new_size) of
                 Granted temp_ptr \<Rightarrow>
                   Inr (True, a\<lparr>data := Some temp_ptr, capacity := new_capacity\<rparr>)
               | Refused \<Rightarrow> Inr (False, a)
               | Released \<Rightarrow> Inl Dangling))"

definition shrink_dynamic_array ::
    "alloc \<Rightarrow> DynamicArray \<Rightarrow> fault + (bool \<times> DynamicArray)" where
  "shrink_dynamic_array r a =
     (if count a = 0
      then Inr (False, a\<lparr>data := None, capacity := 0, element_size := 0\<rparr>)
      else (let new_size = element_size a * count a
            in case realloc r (data a) (unat new_size) of
                 Granted temp_ptr \<Rightarrow> Inr (True, a\<lparr>data := Some temp_ptr, capacity := count a\<rparr>)
               | Refused \<Rightarrow> Inr (False, a)
               | Released \<Rightarrow> Inl Dangling))"

text \<open>
  \<open>want\<close> says whether the caller passed a destination (\<^verbatim>\<open>dst != NULL\<close>); the bytes
  copied into it are the second component of the result.
\<close>

definition pop_dynamic_array ::
    "DynamicArray \<Rightarrow> bool \<Rightarrow> fault + (bool \<times> byte list option \<times> DynamicArray)" where
  "pop_dynamic_array a want =
     (if count a = 0 then Inr (False, None, a)
      else (let a1 = a\<lparr>count := count a - 1\<rparr>;
                src = unat (element_size a1 * count a1)
            in if want
               then (case load_bytes (data a1) src (unat (element_size a1)) of
                       Inl e \<Rightarrow> Inl e
                     | Inr bs \<Rightarrow> Inr (True, Some bs, a1))
               else Inr (True, None, a1)))"

text \<open>
  Source and destination are two objects; the result carries the destination after the
  call. Its value before the call is a parameter, though every field is overwritten.
\<close>

definition copy_dynamic_array ::
    "alloc \<Rightarrow> DynamicArray \<Rightarrow> DynamicArray \<Rightarrow> fault + (bool \<times> DynamicArray)" where
  "copy_dynamic_array r src dst =
     (let dst1 = dst\<lparr>count := count src, element_size := element_size src,
                     capacity := capacity src\<rparr>;
          dst2 = dst1\<lparr>data := malloc r (unat (element_size src * capacity src))\<rparr>
      in if data dst2 = None
         then Inr (False, dst2\<lparr>count := 0, element_size := 0, capacity := 0\<rparr>)
         else (case data src of
                 Some sblk \<Rightarrow>
                   (case load_bytes (Some sblk) 0 (unat (element_size src * count src)) of
                      Inl e \<Rightarrow> Inl e
                    | Inr bs \<Rightarrow>
                        (case store_bytes (data dst2) 0 bs of
                           Inl e \<Rightarrow> Inl e
                         | Inr blk \<Rightarrow> Inr (True, dst2\<lparr>data := Some blk\<rparr>)))
               | None \<Rightarrow> Inr (False, dst2)))"

subsection \<open>The operations of the older variant (\<^verbatim>\<open>jester-dynamic-array.c\<close>)\<close>

text \<open>
  The same nine functions, all but \<^verbatim>\<open>get\<close> and \<^verbatim>\<open>pop\<close> returning \<^verbatim>\<open>void\<close>. The two
  files use the same names; the functions of this one carry the suffix \<open>_void\<close>.
\<close>

definition create_dynamic_array_void :: "alloc \<Rightarrow> size_t \<Rightarrow> size_t \<Rightarrow> DynamicArray" where
  "create_dynamic_array_void r es cap =
     (let total_byte = es * cap
      in case malloc r (unat total_byte) of
           None \<Rightarrow> zeroed
         | Some blk \<Rightarrow> zeroed\<lparr>data := Some blk, element_size := es, count := 0, capacity := cap\<rparr>)"

definition push_dynamic_array_void ::
    "alloc \<Rightarrow> DynamicArray \<Rightarrow> byte list \<Rightarrow> fault + DynamicArray" where
  "push_dynamic_array_void r a d =
     (let grown =
        (if count a = capacity a
         then (let new_capacity = capacity a * 2;
                   new_size = element_size a * new_capacity
               in case realloc r (data a) (unat new_size) of
                    Granted temp_ptr \<Rightarrow>
                      Inr (Some (a\<lparr>data := Some temp_ptr, capacity := new_capacity\<rparr>))
                  | Refused \<Rightarrow> Inr None
                  | Released \<Rightarrow> Inl Dangling)
         else Inr (Some a))
      in case grown of
           Inl e \<Rightarrow> Inl e
         | Inr None \<Rightarrow> Inr a
         | Inr (Some a1) \<Rightarrow>
             (case load_bytes (Some d) 0 (unat (element_size a1)) of
                Inl e \<Rightarrow> Inl e
              | Inr bs \<Rightarrow>
                  (case store_bytes (data a1) (unat (count a1 * element_size a1)) bs of
                     Inl e \<Rightarrow> Inl e
                   | Inr blk \<Rightarrow> Inr (a1\<lparr>data := Some blk, count := count a1 + 1\<rparr>))))"

definition get_dynamic_array_element_void :: "DynamicArray \<Rightarrow> size_t \<Rightarrow> nat option" where
  "get_dynamic_array_element_void a i =
     (if i < count a then Some (unat (element_size a * i)) else None)"

definition clear_dynamic_array_void :: "DynamicArray \<Rightarrow> DynamicArray" where
  "clear_dynamic_array_void a = a\<lparr>count := 0\<rparr>"

definition free_dynamic_array_void :: "DynamicArray \<Rightarrow> DynamicArray" where
  "free_dynamic_array_void a = a\<lparr>data := None, count := 0, capacity := 0, element_size := 0\<rparr>"

definition reserve_dynamic_array_void ::
    "alloc \<Rightarrow> DynamicArray \<Rightarrow> size_t \<Rightarrow> fault + DynamicArray" where
  "reserve_dynamic_array_void r a new_capacity =
     (if capacity a < new_capacity
      then (let new_size = new_capacity * element_size a
            in case realloc r (data a) (unat new_size) of
                 Granted temp_ptr \<Rightarrow> Inr (a\<lparr>data := Some temp_ptr, capacity := new_capacity\<rparr>)
               | Refused \<Rightarrow> Inr a
               | Released \<Rightarrow> Inl Dangling)
      else Inr a)"

definition shrink_dynamic_array_void :: "alloc \<Rightarrow> DynamicArray \<Rightarrow> fault + DynamicArray" where
  "shrink_dynamic_array_void r a =
     (if count a = 0
      then Inr (a\<lparr>data := None, capacity := 0, element_size := 0\<rparr>)
      else (let new_size = element_size a * count a
            in case realloc r (data a) (unat new_size) of
                 Granted temp_ptr \<Rightarrow> Inr (a\<lparr>data := Some temp_ptr, capacity := count a\<rparr>)
               | Refused \<Rightarrow> Inr a
               | Released \<Rightarrow> Inl Dangling))"

definition pop_dynamic_array_void ::
    "DynamicArray \<Rightarrow> bool \<Rightarrow> fault + (bool \<times> byte list option \<times> DynamicArray)" where
  "pop_dynamic_array_void a want =
     (if count a = 0 then Inr (False, None, a)
      else (let a1 = a\<lparr>count := count a - 1\<rparr>;
                src = unat (element_size a1 * count a1)
            in if want
               then (case load_bytes (data a1) src (unat (element_size a1)) of
                       Inl e \<Rightarrow> Inl e
                     | Inr bs \<Rightarrow> Inr (True, Some bs, a1))
               else Inr (True, None, a1)))"

definition copy_dynamic_array_void ::
    "alloc \<Rightarrow> DynamicArray \<Rightarrow> DynamicArray \<Rightarrow> fault + DynamicArray" where
  "copy_dynamic_array_void r src dst =
     (let dst1 = dst\<lparr>count := count src, element_size := element_size src,
                     capacity := capacity src\<rparr>;
          dst2 = dst1\<lparr>data := malloc r (unat (element_size src * capacity src))\<rparr>
      in if data dst2 = None
         then Inr (dst2\<lparr>count := 0, element_size := 0, capacity := 0\<rparr>)
         else (case data src of
                 Some sblk \<Rightarrow>
                   (case load_bytes (Some sblk) 0 (unat (element_size src * count src)) of
                      Inl e \<Rightarrow> Inl e
                    | Inr bs \<Rightarrow>
                        (case store_bytes (data dst2) 0 bs of
                           Inl e \<Rightarrow> Inl e
                         | Inr blk \<Rightarrow> Inr (dst2\<lparr>data := Some blk\<rparr>)))
               | None \<Rightarrow> Inr dst2))"

subsection \<open>The data model\<close>

text \<open>
  The invariants of the data model: \<open>count \<le> capacity\<close>; allocated storage holds exactly
  \<open>capacity * element_size\<close> bytes, a product that fits \<^verbatim>\<open>size_t\<close>; an array without
  storage has capacity 0.
\<close>

definition wf :: "DynamicArray \<Rightarrow> bool" where
  "wf a \<longleftrightarrow>
     count a \<le> capacity a \<and>
     unat (element_size a) * unat (capacity a) < 2 ^ 64 \<and>
     (case data a of
        None \<Rightarrow> capacity a = 0
      | Some blk \<Rightarrow> length blk = unat (element_size a) * unat (capacity a))"

text \<open>The stored element bytes: the first \<open>count * element_size\<close> bytes of the storage.\<close>

definition contents :: "DynamicArray \<Rightarrow> byte list" where
  "contents a =
     (case data a of
        None \<Rightarrow> []
      | Some blk \<Rightarrow> take (unat (count a) * unat (element_size a)) blk)"

text \<open>An allocator answer whose fresh memory is all zero, for the concrete runs below.\<close>

definition zero_fill :: "nat \<Rightarrow> byte" where
  "zero_fill i = 0"

text \<open>
  \<open>stored a vs\<close>: the array holds storage whose size fits \<^verbatim>\<open>size_t\<close>, its count is the
  number of the elements \<open>vs\<close>, and the storage starts with their bytes, in order.
\<close>

definition stored :: "DynamicArray \<Rightarrow> byte list list \<Rightarrow> bool" where
  "stored a vs =
     (case data a of
        None \<Rightarrow> False
      | Some blk \<Rightarrow>
          length blk < 2 ^ 64 \<and>
          unat (count a) = length vs \<and>
          length vs * unat (element_size a) \<le> length blk \<and>
          take (length vs * unat (element_size a)) blk = concat vs)"

subsection \<open>Call sequences\<close>

text \<open>
  A caller appending a list of elements one after the other, each paired with the allocator's
  answer during that call, and going on only while \<^verbatim>\<open>push_dynamic_array\<close> returns
  \<^verbatim>\<open>true\<close>: \<open>Some\<close> of the final array when every append succeeded.
\<close>

fun push_all :: "DynamicArray \<Rightarrow> (alloc \<times> byte list) list \<Rightarrow> DynamicArray option" where
  "push_all a [] = Some a"
| "push_all a ((r, v) # xs) =
     (case push_dynamic_array r a v of
        Inr (True, a1) \<Rightarrow> push_all a1 xs
      | _ \<Rightarrow> None)"

text \<open>
  The arrays a program can hold: what \<^verbatim>\<open>create_dynamic_array\<close> returns, and what any
  operation leaves behind when it is called on such an array and ends in a state of the
  model (with any arguments and any answer of the allocator). \<^verbatim>\<open>copy_dynamic_array\<close>
  overwrites every field of its destination, which may be uninitialised before the call.
\<close>

inductive reachable :: "DynamicArray \<Rightarrow> bool" where
  r_create: "reachable (create_dynamic_array r es cap)"
| r_push: "reachable a \<Longrightarrow> push_dynamic_array r a d = Inr (b, a') \<Longrightarrow> reachable a'"
| r_clear: "reachable a \<Longrightarrow> reachable (snd (clear_dynamic_array a))"
| r_free: "reachable a \<Longrightarrow> reachable (snd (free_dynamic_array a))"
| r_reserve: "reachable a \<Longrightarrow> reserve_dynamic_array r a n = Inr (b, a') \<Longrightarrow> reachable a'"
| r_shrink: "reachable a \<Longrightarrow> shrink_dynamic_array r a = Inr (b, a') \<Longrightarrow> reachable a'"
| r_pop: "reachable a \<Longrightarrow> pop_dynamic_array a want = Inr (b, out, a') \<Longrightarrow> reachable a'"
| r_copy: "reachable src \<Longrightarrow> copy_dynamic_array r src dst = Inr (b, dst') \<Longrightarrow> reachable dst'"

section \<open>Failed growth\<close>

lemma realloc_refused:
  "refuses r \<Longrightarrow> n \<noteq> 0 \<Longrightarrow> realloc r p n = Refused"
  by (cases r) (simp_all add: realloc_def refuses_def)

lemma realloc_AllocFail [simp]: "realloc AllocFail p n = Refused"
  by (simp add: realloc_def)

lemma malloc_AllocFail [simp]: "malloc AllocFail n = None"
  by (simp add: malloc_def)

lemma realloc_released:
  "realloc r p n = Released \<longleftrightarrow> r = AllocRelease \<and> n = 0 \<and> p \<noteq> None"
  by (cases r) (simp_all add: realloc_def Let_def)

lemma push_not_full:
  assumes "count a \<noteq> capacity a"
  shows "push_dynamic_array r a v =
    (case load_bytes (Some v) 0 (unat (element_size a)) of
        Inl e \<Rightarrow> Inl e
      | Inr bs \<Rightarrow>
          (case store_bytes (data a) (unat (count a * element_size a)) bs of
             Inl e \<Rightarrow> Inl e
           | Inr blk \<Rightarrow> Inr (True, a\<lparr>data := Some blk, count := count a + 1\<rparr>)))"
  using assms by (simp add: push_dynamic_array_def)

lemma push_full_granted:
  assumes "count a = capacity a"
    "realloc r (data a) (unat (element_size a * (capacity a * 2))) = Granted blk0"
  shows "push_dynamic_array r a v =
    (case load_bytes (Some v) 0 (unat (element_size a)) of
        Inl e \<Rightarrow> Inl e
      | Inr bs \<Rightarrow>
          (case store_bytes (Some blk0) (unat (count a * element_size a)) bs of
             Inl e \<Rightarrow> Inl e
           | Inr blk \<Rightarrow>
               Inr (True, a\<lparr>capacity := capacity a * 2, data := Some blk,
                             count := count a + 1\<rparr>)))"
  using assms by (simp add: push_dynamic_array_def cong: sum.case_cong)

lemma push_full_refused:
  assumes "count a = capacity a"
    "realloc r (data a) (unat (element_size a * (capacity a * 2))) = Refused"
  shows "push_dynamic_array r a v = Inr (False, a)"
  using assms by (simp add: push_dynamic_array_def)

lemma push_full_released:
  assumes "count a = capacity a"
    "realloc r (data a) (unat (element_size a * (capacity a * 2))) = Released"
  shows "push_dynamic_array r a v = Inl Dangling"
  using assms by (simp add: push_dynamic_array_def)

lemma copy_in_success:
  assumes "(case load_bytes (Some v) 0 n of
              Inl e \<Rightarrow> Inl e
            | Inr bs \<Rightarrow>
                (case store_bytes p off bs of
                   Inl e \<Rightarrow> Inl e
                 | Inr blk \<Rightarrow> Inr (True, F blk))) = Inr (True, a')"
  shows "\<exists>blk1. p = Some blk1 \<and> n \<le> length v \<and> off + n \<le> length blk1 \<and>
           a' = F (take off blk1 @ take n v @ drop (off + n) blk1)"
proof -
  from assms have n: "n \<le> length v"
    by (simp add: load_bytes_def split: if_splits)
  then have ld: "load_bytes (Some v) 0 n = Inr (take n v)"
    by (simp add: load_bytes_def)
  from assms obtain blk1 where p: "p = Some blk1"
    unfolding ld by (cases p) (simp_all add: store_bytes_def)
  from assms n have room: "off + n \<le> length blk1"
    unfolding ld p by (simp add: store_bytes_def split: if_splits)
  with assms n have "a' = F (take off blk1 @ take n v @ drop (off + n) blk1)"
    unfolding ld p by (simp add: store_bytes_def)
  with p n room show ?thesis by blast
qed

lemma push_success:
  assumes "push_dynamic_array r a v = Inr (True, a')"
  shows "\<exists>blk1 cap1.
           (if count a = capacity a
            then realloc r (data a) (unat (element_size a * (capacity a * 2))) = Granted blk1 \<and>
                 cap1 = capacity a * 2
            else data a = Some blk1 \<and> cap1 = capacity a) \<and>
           unat (element_size a) \<le> length v \<and>
           unat (count a * element_size a) + unat (element_size a) \<le> length blk1 \<and>
           a' = a\<lparr>capacity := cap1,
                   data := Some (take (unat (count a * element_size a)) blk1 @
                                  take (unat (element_size a)) v @
                                  drop (unat (count a * element_size a) + unat (element_size a)) blk1),
                   count := count a + 1\<rparr>"
proof (cases "count a = capacity a")
  case False
  from assms have "(case load_bytes (Some v) 0 (unat (element_size a)) of
        Inl e \<Rightarrow> Inl e
      | Inr bs \<Rightarrow>
          (case store_bytes (data a) (unat (count a * element_size a)) bs of
             Inl e \<Rightarrow> Inl e
           | Inr blk \<Rightarrow> Inr (True, a\<lparr>data := Some blk, count := count a + 1\<rparr>)))
      = Inr (True, a')"
    unfolding push_not_full [OF False] .
  from copy_in_success
    [where F = "\<lambda>blk. a\<lparr>data := Some blk, count := count a + 1\<rparr>", OF this]
  obtain blk1 where
    "data a = Some blk1" "unat (element_size a) \<le> length v"
    "unat (count a * element_size a) + unat (element_size a) \<le> length blk1"
    "a' = a\<lparr>data := Some (take (unat (count a * element_size a)) blk1 @
                   take (unat (element_size a)) v @
                   drop (unat (count a * element_size a) + unat (element_size a)) blk1),
             count := count a + 1\<rparr>"
    by blast
  with False show ?thesis
    by (intro exI [of _ blk1] exI [of _ "capacity a"]) simp
next
  case True
  show ?thesis
  proof (cases "realloc r (data a) (unat (element_size a * (capacity a * 2)))")
    case Refused
    with assms True show ?thesis by (simp add: push_full_refused)
  next
    case Released
    with assms True show ?thesis by (simp add: push_full_released)
  next
    case (Granted blk0)
    from assms have "(case load_bytes (Some v) 0 (unat (element_size a)) of
        Inl e \<Rightarrow> Inl e
      | Inr bs \<Rightarrow>
          (case store_bytes (Some blk0) (unat (count a * element_size a)) bs of
             Inl e \<Rightarrow> Inl e
           | Inr blk \<Rightarrow>
               Inr (True, a\<lparr>capacity := capacity a * 2, data := Some blk,
                             count := count a + 1\<rparr>))) = Inr (True, a')"
      unfolding push_full_granted [OF True Granted] .
    from copy_in_success
      [where F = "\<lambda>blk. a\<lparr>capacity := capacity a * 2, data := Some blk,
                             count := count a + 1\<rparr>", OF this]
    obtain blk1 where
      "Some blk0 = Some blk1" "unat (element_size a) \<le> length v"
      "unat (count a * element_size a) + unat (element_size a) \<le> length blk1"
      "a' = a\<lparr>capacity := capacity a * 2,
               data := Some (take (unat (count a * element_size a)) blk1 @
                     take (unat (element_size a)) v @
                     drop (unat (count a * element_size a) + unat (element_size a)) blk1),
               count := count a + 1\<rparr>"
      by blast
    with True Granted show ?thesis
      by (intro exI [of _ blk1] exI [of _ "capacity a * 2"]) simp
  qed
qed

lemma push_fail_unchanged:
  assumes "push_dynamic_array r a d = Inr (False, a')"
  shows "a' = a"
proof (cases "count a = capacity a")
  case False
  with assms show ?thesis
    by (simp add: push_not_full split: sum.splits)
next
  case True
  show ?thesis
  proof (cases "realloc r (data a) (unat (element_size a * (capacity a * 2)))")
    case (Granted blk0)
    with assms True show ?thesis
      by (simp add: push_full_granted split: sum.splits)
  next
    case Refused
    with assms True show ?thesis by (simp add: push_full_refused)
  next
    case Released
    with assms True show ?thesis by (simp add: push_full_released)
  qed
qed

lemma reserve_fail_unchanged:
  "reserve_dynamic_array r a n = Inr (False, a') \<Longrightarrow> a' = a"
  by (auto simp: reserve_dynamic_array_def Let_def split: if_splits realloc_result.splits)

lemma shrink_fail_unchanged:
  "count a \<noteq> 0 \<Longrightarrow> shrink_dynamic_array r a = Inr (False, a') \<Longrightarrow> a' = a"
  by (auto simp: shrink_dynamic_array_def Let_def split: if_splits realloc_result.splits)

lemma push_refusal_reported:
  "count a = capacity a \<Longrightarrow> refuses r \<Longrightarrow>
   unat (element_size a * (capacity a * 2)) \<noteq> 0 \<Longrightarrow>
   push_dynamic_array r a d = Inr (False, a)"
  by (simp add: push_full_refused realloc_refused)

lemma reserve_refusal_reported:
  assumes "capacity a < n" "refuses r" "unat (n * element_size a) \<noteq> 0"
  shows "reserve_dynamic_array r a n = Inr (False, a)"
proof -
  from assms(1) have "\<not> n \<le> capacity a" by simp
  with assms(2,3) show ?thesis
    by (simp add: reserve_dynamic_array_def realloc_refused)
qed

lemma shrink_refusal_reported:
  "count a \<noteq> 0 \<Longrightarrow> refuses r \<Longrightarrow> unat (element_size a * count a) \<noteq> 0 \<Longrightarrow>
   shrink_dynamic_array r a = Inr (False, a)"
  by (simp add: shrink_dynamic_array_def realloc_refused)

text \<open>
  Claim C5, as stated, fails where the size passed to \<^verbatim>\<open>realloc\<close> is zero and the
  allocator releases the block when it returns \<^verbatim>\<open>NULL\<close>. A reserve of \<open>2^63\<close> elements of
  two bytes asks for \<open>2^64 mod 2^64 = 0\<close> bytes, and an append on capacity 0 asks for
  \<open>element_size * 0\<close> bytes: both calls return \<^verbatim>\<open>false\<close>, and the storage that the array
  points to is gone, with the two elements it held in the first case.
\<close>

theorem failed_growth_counterexample:
  "capacity \<lparr>data = Some [1, 2, 3, 4], count = 2, capacity = 2, element_size = 2\<rparr>
     < 0x8000000000000000 \<and>
   reserve_dynamic_array AllocRelease
       \<lparr>data = Some [1, 2, 3, 4], count = 2, capacity = 2, element_size = 2\<rparr>
       0x8000000000000000
     = Inl Dangling \<and>
   create_dynamic_array (AllocOk zero_fill) 4 0
     = \<lparr>data = Some [], count = 0, capacity = 0, element_size = 4\<rparr> \<and>
   push_dynamic_array AllocRelease
       \<lparr>data = Some [], count = 0, capacity = 0, element_size = 4\<rparr> [10, 0, 0, 0]
     = Inl Dangling"
  by code_simp

text \<open>
  Claim C5, amended. Whenever an append, a reserve, or a shrink of a non-empty array returns
  \<^verbatim>\<open>false\<close> and leaves the array its storage, the array is exactly as it was before the
  call: same storage bytes, count, capacity and element size. And whenever the allocator
  does not grant a request of a size other than zero, that is what happens: each of the
  three returns \<^verbatim>\<open>false\<close> and the array is as it was.
\<close>

theorem failed_growth_leaves_buffer_unchanged:
  "(push_dynamic_array r a d = Inr (False, a1) \<longrightarrow> a1 = a) \<and>
   (reserve_dynamic_array r a n = Inr (False, a2) \<longrightarrow> a2 = a) \<and>
   (count a \<noteq> 0 \<and> shrink_dynamic_array r a = Inr (False, a3) \<longrightarrow> a3 = a) \<and>
   (count a = capacity a \<and> refuses r \<and> unat (element_size a * (capacity a * 2)) \<noteq> 0 \<longrightarrow>
      push_dynamic_array r a d = Inr (False, a)) \<and>
   (capacity a < n \<and> refuses r \<and> unat (n * element_size a) \<noteq> 0 \<longrightarrow>
      reserve_dynamic_array r a n = Inr (False, a)) \<and>
   (count a \<noteq> 0 \<and> refuses r \<and> unat (element_size a * count a) \<noteq> 0 \<longrightarrow>
      shrink_dynamic_array r a = Inr (False, a))"
  using push_fail_unchanged reserve_fail_unchanged shrink_fail_unchanged
    push_refusal_reported reserve_refusal_reported shrink_refusal_reported
  by blast

theorem failed_growth_leaves_buffer_unchanged_witness:
  "refuses AllocRelease \<and>
   count \<lparr>data = Some [1, 2], count = 2, capacity = 2, element_size = 1\<rparr> \<noteq> 0 \<and>
   count \<lparr>data = Some [1, 2], count = 2, capacity = 2, element_size = 1\<rparr>
     = capacity \<lparr>data = Some [1, 2], count = 2, capacity = 2, element_size = 1\<rparr> \<and>
   capacity \<lparr>data = Some [1, 2], count = 2, capacity = 2, element_size = 1\<rparr> < 5 \<and>
   push_dynamic_array AllocRelease
     \<lparr>data = Some [1, 2], count = 2, capacity = 2, element_size = 1\<rparr> [3]
     = Inr (False, \<lparr>data = Some [1, 2], count = 2, capacity = 2, element_size = 1\<rparr>) \<and>
   reserve_dynamic_array AllocRelease
     \<lparr>data = Some [1, 2], count = 2, capacity = 2, element_size = 1\<rparr> 5
     = Inr (False, \<lparr>data = Some [1, 2], count = 2, capacity = 2, element_size = 1\<rparr>) \<and>
   shrink_dynamic_array AllocRelease
     \<lparr>data = Some [1, 2], count = 2, capacity = 2, element_size = 1\<rparr>
     = Inr (False, \<lparr>data = Some [1, 2], count = 2, capacity = 2, element_size = 1\<rparr>)"
  using failed_growth_leaves_buffer_unchanged
    [of AllocRelease "\<lparr>data = Some [1, 2], count = 2, capacity = 2, element_size = 1\<rparr>" "[3]"
        "\<lparr>data = Some [1, 2], count = 2, capacity = 2, element_size = 1\<rparr>" 5
        "\<lparr>data = Some [1, 2], count = 2, capacity = 2, element_size = 1\<rparr>"
        "\<lparr>data = Some [1, 2], count = 2, capacity = 2, element_size = 1\<rparr>"]
  by (simp add: refuses_def)

section \<open>Growth from capacity zero\<close>

lemma push_full_capacity:
  "count a = capacity a \<Longrightarrow> push_dynamic_array r a d = Inr (True, a') \<Longrightarrow>
   capacity a' = capacity a * 2"
  by (drule push_success) auto

text \<open>
  Claim C1. The claim has the growth step request \<open>max 1 (capacity * 2)\<close>, so that an
  append on capacity 0 that succeeds leaves capacity at least 1. The code requests
  \<open>capacity * 2\<close>, which is 0 at capacity 0. After a failed construction (the zeroed
  array) an append whose zero-byte \<^verbatim>\<open>realloc\<close> is granted returns \<^verbatim>\<open>true\<close> and leaves
  capacity 0 with count 1. After \<^verbatim>\<open>create_dynamic_array(4, 0)\<close> with a granted zero-byte
  \<^verbatim>\<open>malloc\<close>, the same append copies four bytes into storage of zero bytes.
\<close>

theorem push_from_capacity_zero_requests_zero:
  "create_dynamic_array AllocFail 4 0 = zeroed \<and>
   push_dynamic_array (AllocOk zero_fill) zeroed [10, 0, 0, 0]
     = Inr (True, \<lparr>data = Some [], count = 1, capacity = 0, element_size = 0\<rparr>) \<and>
   create_dynamic_array (AllocOk zero_fill) 4 0
     = \<lparr>data = Some [], count = 0, capacity = 0, element_size = 4\<rparr> \<and>
   push_dynamic_array (AllocOk zero_fill)
     \<lparr>data = Some [], count = 0, capacity = 0, element_size = 4\<rparr> [10, 0, 0, 0]
     = Inl OutOfBounds"
  by code_simp

text \<open>
  Claim C3. \<open>count \<le> capacity\<close> is not preserved by an append on capacity 0: an array
  that was cleared and shrunk is zeroed and satisfies the invariant; the next append, its
  zero-byte \<^verbatim>\<open>realloc\<close> granted, returns \<^verbatim>\<open>true\<close> with count 1 and capacity 0.
\<close>

theorem push_breaks_count_le_capacity:
  "shrink_dynamic_array AllocFail
      (snd (clear_dynamic_array
         \<lparr>data = Some [7, 0], count = 1, capacity = 2, element_size = 1\<rparr>))
     = Inr (False, zeroed) \<and>
   count zeroed \<le> capacity zeroed \<and>
   push_dynamic_array (AllocOk zero_fill) zeroed [7]
     = Inr (True, \<lparr>data = Some [], count = 1, capacity = 0, element_size = 0\<rparr>) \<and>
   \<not> count \<lparr>data = Some [], count = 1, capacity = 0, element_size = 0\<rparr>
       \<le> capacity \<lparr>data = Some [], count = 1, capacity = 0, element_size = 0\<rparr>"
  by code_simp

text \<open>
  Claim C2. A copy from a source without storage returns \<^verbatim>\<open>false\<close>, but only after the
  destination has received the source's three size fields and a fresh allocation, which it
  keeps: the destination is not reset and its storage is not \<^verbatim>\<open>NULL\<close>. The reset to
  the zeroed state happens on the other failure path only, when \<^verbatim>\<open>malloc\<close> fails.
\<close>

theorem copy_unallocated_source_not_reset:
  "copy_dynamic_array (AllocOk zero_fill) zeroed zeroed
     = Inr (False, \<lparr>data = Some [], count = 0, capacity = 0, element_size = 0\<rparr>) \<and>
   copy_dynamic_array (AllocOk zero_fill)
       \<lparr>data = None, count = 1, capacity = 2, element_size = 2\<rparr> zeroed
     = Inr (False, \<lparr>data = Some [0, 0, 0, 0], count = 1, capacity = 2, element_size = 2\<rparr>) \<and>
   copy_dynamic_array AllocFail zeroed
       \<lparr>data = Some [5], count = 1, capacity = 1, element_size = 1\<rparr>
     = Inr (False, zeroed)"
  by code_simp

section \<open>Construction\<close>

text \<open>
  Claim C4, as stated, fails when the allocator grants the request of zero bytes: the array
  returned for capacity 0 then owns storage and keeps its element size, and differs from
  the one returned when the allocation fails.
\<close>

theorem create_zero_capacity_counterexample:
  "\<not> (data (create_dynamic_array (AllocOk zero_fill) 4 0) = None \<and>
      create_dynamic_array (AllocOk zero_fill) 4 0 = create_dynamic_array AllocFail 4 0)"
  by code_simp

text \<open>
  Claim C4, amended. Construction with capacity 0 returns capacity 0 and count 0. When the
  allocator grants the zero-byte request the array owns a block of zero bytes and keeps
  the element size; when it refuses, the array is zeroed, as after any failed allocation.
  Every constructed array has count 0.
\<close>

theorem create_zero_capacity:
  "create_dynamic_array (AllocOk f) es 0
     = \<lparr>data = Some [], count = 0, capacity = 0, element_size = es\<rparr> \<and>
   create_dynamic_array AllocFail es 0 = zeroed \<and>
   create_dynamic_array AllocFail es cap = zeroed \<and>
   count (create_dynamic_array r es cap) = 0"
  by (cases r) (simp_all add: create_dynamic_array_def malloc_def zeroed_def)

section \<open>Word arithmetic of sizes and offsets\<close>

lemma unat_mult_size:
  fixes x y :: size_t
  assumes "unat x * unat y < 2 ^ 64"
  shows "unat (x * y) = unat x * unat y"
  using assms unat_mult_lem [of x y] by simp

lemma wf_count_bytes:
  assumes "wf a"
  shows "unat (element_size a * count a) = unat (element_size a) * unat (count a)"
    and "unat (element_size a) * unat (count a) \<le> unat (element_size a) * unat (capacity a)"
proof -
  from assms have le: "unat (count a) \<le> unat (capacity a)"
    by (simp add: wf_def word_le_nat_alt)
  then show 2: "unat (element_size a) * unat (count a) \<le> unat (element_size a) * unat (capacity a)"
    by simp
  from assms have "unat (element_size a) * unat (capacity a) < 2 ^ 64"
    by (simp add: wf_def)
  with 2 have "unat (element_size a) * unat (count a) < 2 ^ 64"
    by linarith
  then show "unat (element_size a * count a) = unat (element_size a) * unat (count a)"
    by (rule unat_mult_size)
qed

lemma wf_block_length:
  "wf a \<Longrightarrow> data a = Some blk \<Longrightarrow> length blk = unat (element_size a) * unat (capacity a)"
  by (simp add: wf_def)

lemma realloc_keeps_prefix:
  assumes "realloc r (Some blk) n = Granted blk'" "k \<le> n" "k \<le> length blk"
  shows "take k blk' = take k blk"
  using assms by (cases r) (auto simp: realloc_def min_def split: if_splits)

lemma realloc_length:
  "realloc r p n = Granted blk' \<Longrightarrow> length blk' = n"
  by (cases r) (auto simp: realloc_def Let_def split: option.splits if_splits)

section \<open>Shrink\<close>

lemma shrink_empty:
  "count a = 0 \<Longrightarrow> shrink_dynamic_array r a = Inr (False, zeroed)"
  by (cases a) (simp add: shrink_dynamic_array_def zeroed_def)

lemma free_allocated:
  "data a \<noteq> None \<Longrightarrow> free_dynamic_array a = (True, zeroed)"
  by (cases a) (simp add: free_dynamic_array_def zeroed_def)

lemma shrink_success_fields:
  assumes "count a \<noteq> 0" "shrink_dynamic_array r a = Inr (True, a')"
  shows "capacity a' = count a \<and> count a' = count a \<and> element_size a' = element_size a"
  using assms
  by (auto simp: shrink_dynamic_array_def Let_def split: realloc_result.splits)

lemma shrink_success_contents:
  assumes "wf a" "count a \<noteq> 0" "shrink_dynamic_array r a = Inr (True, a')"
  shows "contents a' = contents a"
proof -
  let ?n = "unat (count a) * unat (element_size a)"
  from assms(1) have "count a \<le> capacity a" by (simp add: wf_def)
  with assms(2) have "capacity a \<noteq> 0" by auto
  with assms(1) obtain blk where blk: "data a = Some blk"
    by (cases "data a") (auto simp: wf_def)
  from assms(2,3) blk obtain blk' where
    re: "realloc r (Some blk) (unat (element_size a * count a)) = Granted blk'" and
    a': "a' = a\<lparr>data := Some blk', capacity := count a\<rparr>"
    by (auto simp: shrink_dynamic_array_def Let_def split: realloc_result.splits)
  have n: "unat (element_size a * count a) = ?n"
    using wf_count_bytes(1) [OF assms(1)] by (simp add: mult.commute)
  have "?n \<le> length blk"
    using wf_count_bytes(2) [OF assms(1)] wf_block_length [OF assms(1) blk]
    by (simp add: mult.commute)
  with re n have "take ?n blk' = take ?n blk"
    by (intro realloc_keeps_prefix [OF re]) simp_all
  then show ?thesis
    by (simp add: a' contents_def blk)
qed

text \<open>
  Claim C9. Shrinking an array of count 0 returns \<^verbatim>\<open>false\<close> and leaves the zeroed
  array, which is also what freeing an array with storage leaves. Shrinking a well-formed
  array of count above 0, when it succeeds, makes capacity equal to count and keeps count,
  element size and the stored element bytes.
\<close>

theorem shrink_to_fit:
  "(count a = 0 \<longrightarrow>
      shrink_dynamic_array r a = Inr (False, zeroed) \<and>
      (data a \<noteq> None \<longrightarrow> free_dynamic_array a = (True, zeroed))) \<and>
   (wf a \<and> count a \<noteq> 0 \<and> shrink_dynamic_array r a = Inr (True, a') \<longrightarrow>
      capacity a' = count a \<and> count a' = count a \<and>
      element_size a' = element_size a \<and> contents a' = contents a)"
  using shrink_empty free_allocated shrink_success_fields shrink_success_contents
  by blast

theorem shrink_to_fit_witness:
  "count zeroed = 0 \<and>
   shrink_dynamic_array AllocFail
      \<lparr>data = Some [9, 9], count = 0, capacity = 2, element_size = 1\<rparr> = Inr (False, zeroed) \<and>
   free_dynamic_array \<lparr>data = Some [9, 9], count = 0, capacity = 2, element_size = 1\<rparr>
      = (True, zeroed) \<and>
   wf \<lparr>data = Some [1, 2, 3, 4], count = 1, capacity = 2, element_size = 2\<rparr> \<and>
   shrink_dynamic_array (AllocOk zero_fill)
      \<lparr>data = Some [1, 2, 3, 4], count = 1, capacity = 2, element_size = 2\<rparr>
      = Inr (True, \<lparr>data = Some [1, 2], count = 1, capacity = 1, element_size = 2\<rparr>) \<and>
   contents \<lparr>data = Some [1, 2], count = 1, capacity = 1, element_size = 2\<rparr>
      = contents \<lparr>data = Some [1, 2, 3, 4], count = 1, capacity = 2, element_size = 2\<rparr>"
  using shrink_to_fit
    [of "\<lparr>data = Some [9, 9], count = 0, capacity = 2, element_size = 1\<rparr>" AllocFail]
    shrink_to_fit
    [of "\<lparr>data = Some [1, 2, 3, 4], count = 1, capacity = 2, element_size = 2\<rparr>"
        "AllocOk zero_fill"
        "\<lparr>data = Some [1, 2], count = 1, capacity = 1, element_size = 2\<rparr>"]
  by (simp add: zeroed_def wf_def shrink_dynamic_array_def realloc_def)


section \<open>Reserve\<close>

lemma reserve_enough:
  "new_capacity \<le> capacity a \<Longrightarrow> reserve_dynamic_array r a new_capacity = Inr (True, a)"
  by (simp add: reserve_dynamic_array_def)

lemma reserve_never_shrinks:
  "reserve_dynamic_array r a n = Inr (b, a') \<Longrightarrow> capacity a \<le> capacity a'"
  by (auto simp: reserve_dynamic_array_def Let_def split: if_splits realloc_result.splits)

lemma reserve_success_fields:
  assumes "capacity a < n" "reserve_dynamic_array r a n = Inr (True, a')"
  shows "capacity a' = n \<and> count a' = count a \<and> element_size a' = element_size a"
proof -
  from assms(1) have "\<not> n \<le> capacity a" by simp
  with assms(2) show ?thesis
    by (auto simp: reserve_dynamic_array_def Let_def split: realloc_result.splits)
qed

lemma reserve_success_contents:
  assumes "wf a" "capacity a < n" "unat n * unat (element_size a) < 2 ^ 64"
    "reserve_dynamic_array r a n = Inr (True, a')"
  shows "contents a' = contents a"
proof -
  let ?k = "unat (count a) * unat (element_size a)"
  from assms(2) have "\<not> n \<le> capacity a" by simp
  with assms(4) obtain blk' where
    re: "realloc r (data a) (unat (n * element_size a)) = Granted blk'" and
    a': "a' = a\<lparr>data := Some blk', capacity := n\<rparr>"
    by (auto simp: reserve_dynamic_array_def Let_def split: realloc_result.splits)
  have n: "unat (n * element_size a) = unat n * unat (element_size a)"
    using assms(3) by (rule unat_mult_size)
  from assms(1,2) have "unat (count a) \<le> unat n"
    by (simp add: wf_def word_le_nat_alt word_less_nat_alt)
  then have kn: "?k \<le> unat (n * element_size a)"
    by (simp add: n)
  show ?thesis
  proof (cases "data a")
    case None
    with assms(1) have "count a = 0" by (auto simp: wf_def)
    then show ?thesis by (simp add: a' contents_def None)
  next
    case (Some blk)
    have "?k \<le> length blk"
      using wf_count_bytes(2) [OF assms(1)] wf_block_length [OF assms(1) Some]
      by (simp add: mult.commute)
    with re kn Some have "take ?k blk' = take ?k blk"
      by (intro realloc_keeps_prefix [of r blk _ blk']) simp_all
    then show ?thesis by (simp add: a' contents_def Some)
  qed
qed

text \<open>
  Claim C8, as stated, fails when \<open>min_capacity * element_size\<close> wraps around: two
  elements of two bytes, capacity 2, and a reserve of \<open>2^63 + 1\<close> elements ask
  \<^verbatim>\<open>realloc\<close> for 2 bytes. The call succeeds, capacity becomes \<open>2^63 + 1\<close>, and the
  second element is cut off.
\<close>

theorem reserve_overflow_counterexample:
  "capacity \<lparr>data = Some [1, 2, 3, 4], count = 2, capacity = 2, element_size = 2\<rparr>
     < 0x8000000000000001 \<and>
   reserve_dynamic_array (AllocOk zero_fill)
       \<lparr>data = Some [1, 2, 3, 4], count = 2, capacity = 2, element_size = 2\<rparr>
       0x8000000000000001
     = Inr (True, \<lparr>data = Some [1, 2], count = 2, capacity = 0x8000000000000001,
                   element_size = 2\<rparr>) \<and>
   contents \<lparr>data = Some [1, 2], count = 2, capacity = 0x8000000000000001, element_size = 2\<rparr>
     \<noteq> contents \<lparr>data = Some [1, 2, 3, 4], count = 2, capacity = 2, element_size = 2\<rparr>"
  by code_simp

text \<open>
  Claim C8, amended. When capacity already reaches \<open>min_capacity\<close>, reserve succeeds and
  changes nothing. Otherwise, on a well-formed array and provided
  \<open>min_capacity * element_size\<close> fits \<^verbatim>\<open>size_t\<close>, a reserve that succeeds makes capacity
  exactly \<open>min_capacity\<close> and keeps count, element size and the stored element bytes.
  Reserve never lowers capacity.
\<close>

theorem reserve_without_overflow:
  "(n \<le> capacity a \<longrightarrow> reserve_dynamic_array r a n = Inr (True, a)) \<and>
   (wf a \<and> capacity a < n \<and> unat n * unat (element_size a) < 2 ^ 64 \<and>
    reserve_dynamic_array r a n = Inr (True, a') \<longrightarrow>
      capacity a' = n \<and> count a' = count a \<and>
      element_size a' = element_size a \<and> contents a' = contents a) \<and>
   (reserve_dynamic_array r a n = Inr (b, a2) \<longrightarrow> capacity a \<le> capacity a2)"
  using reserve_enough reserve_never_shrinks reserve_success_fields reserve_success_contents
  by blast

theorem reserve_without_overflow_witness:
  "(1 :: size_t) \<le> capacity \<lparr>data = Some [1, 2, 3, 4], count = 1, capacity = 2, element_size = 2\<rparr> \<and>
   reserve_dynamic_array AllocFail
       \<lparr>data = Some [1, 2, 3, 4], count = 1, capacity = 2, element_size = 2\<rparr> 1
     = Inr (True, \<lparr>data = Some [1, 2, 3, 4], count = 1, capacity = 2, element_size = 2\<rparr>) \<and>
   wf \<lparr>data = Some [1, 2, 3, 4], count = 1, capacity = 2, element_size = 2\<rparr> \<and>
   capacity \<lparr>data = Some [1, 2, 3, 4], count = 1, capacity = 2, element_size = 2\<rparr> < 3 \<and>
   unat (3 :: size_t)
     * unat (element_size \<lparr>data = Some [1, 2, 3, 4], count = 1, capacity = 2, element_size = 2\<rparr>)
     < 2 ^ 64 \<and>
   reserve_dynamic_array (AllocOk zero_fill)
       \<lparr>data = Some [1, 2, 3, 4], count = 1, capacity = 2, element_size = 2\<rparr> 3
     = Inr (True, \<lparr>data = Some [1, 2, 3, 4, 0, 0], count = 1, capacity = 3, element_size = 2\<rparr>) \<and>
   contents \<lparr>data = Some [1, 2, 3, 4, 0, 0], count = 1, capacity = 3, element_size = 2\<rparr>
     = contents \<lparr>data = Some [1, 2, 3, 4], count = 1, capacity = 2, element_size = 2\<rparr> \<and>
   capacity \<lparr>data = Some [1, 2, 3, 4], count = 1, capacity = 2, element_size = 2\<rparr>
     \<le> capacity \<lparr>data = Some [1, 2, 3, 4, 0, 0], count = 1, capacity = 3, element_size = 2\<rparr>"
  using reserve_without_overflow
    [of 1 "\<lparr>data = Some [1, 2, 3, 4], count = 1, capacity = 2, element_size = 2\<rparr>" AllocFail]
    reserve_without_overflow
    [of 3 "\<lparr>data = Some [1, 2, 3, 4], count = 1, capacity = 2, element_size = 2\<rparr>"
        "AllocOk zero_fill"
        "\<lparr>data = Some [1, 2, 3, 4, 0, 0], count = 1, capacity = 3, element_size = 2\<rparr>"
        True
        "\<lparr>data = Some [1, 2, 3, 4, 0, 0], count = 1, capacity = 3, element_size = 2\<rparr>"]
  by (simp add: wf_def reserve_dynamic_array_def realloc_def zero_fill_def upt_rec)

section \<open>Pop, then append the popped bytes\<close>

lemma word_pred_less:
  fixes c :: size_t
  shows "c \<noteq> 0 \<Longrightarrow> c - 1 < c"
  by (simp add: word_less_nat_alt unat_minus_one unat_gt_0)

lemma take_drop_restore:
  "off + n \<le> length b \<Longrightarrow> take off b @ take n (drop off b) @ drop (off + n) b = b"
  by (metis append_take_drop_id drop_drop add.commute append.assoc take_add)

text \<open>
  Claim C7. On a well-formed array with at least one element, a pop with a destination
  succeeds, and appending the popped bytes right after gives back the array as it was
  before the pop, whatever the allocator would answer: same count, same capacity, same
  storage bytes.
\<close>

theorem pop_then_push_restores:
  assumes "wf a" "count a \<noteq> 0"
  shows "\<exists>bs. pop_dynamic_array a True = Inr (True, Some bs, a\<lparr>count := count a - 1\<rparr>) \<and>
              push_dynamic_array r (a\<lparr>count := count a - 1\<rparr>) bs = Inr (True, a)"
proof -
  let ?es = "unat (element_size a)"
  let ?a1 = "a\<lparr>count := count a - 1\<rparr>"
  let ?off = "?es * unat (count a - 1)"
  from assms have le: "count a \<le> capacity a" by (simp add: wf_def)
  with assms(2) have "capacity a \<noteq> 0" by auto
  with assms(1) obtain blk where blk: "data a = Some blk"
    by (cases "data a") (auto simp: wf_def)
  have lt: "count a - 1 < count a" using assms(2) by (rule word_pred_less)
  with le have ne: "count a - 1 \<noteq> capacity a" by auto
  have wf1: "wf ?a1"
    using assms(1) lt by (auto simp: wf_def split: option.splits)
  have off: "unat (element_size a * (count a - 1)) = ?off"
    using wf_count_bytes(1) [OF wf1] by simp
  have off': "unat ((count a - 1) * element_size a) = ?off"
    using off by (simp add: mult.commute)
  have "unat (count a - 1) + 1 \<le> unat (capacity a)"
    using lt le by (simp add: word_less_nat_alt word_le_nat_alt)
  then have "?es * (unat (count a - 1) + 1) \<le> ?es * unat (capacity a)"
    by (rule mult_le_mono2)
  then have fit: "?off + ?es \<le> length blk"
    using wf_block_length [OF assms(1) blk] by (simp add: algebra_simps)
  let ?bs = "take ?es (drop ?off blk)"
  have len: "length ?bs = ?es" using fit by simp
  have pop: "pop_dynamic_array a True = Inr (True, Some ?bs, ?a1)"
    using assms(2) fit by (simp add: pop_dynamic_array_def Let_def off load_bytes_def blk)
  have same: "a\<lparr>count := count a - 1, data := Some blk, count := count a - 1 + 1\<rparr> = a"
    using blk by (cases a) simp
  have "push_dynamic_array r ?a1 ?bs = Inr (True, a)"
    using ne fit len take_drop_restore [OF fit] same
    by (simp add: push_dynamic_array_def Let_def load_bytes_def store_bytes_def blk off')
  with pop show ?thesis by blast
qed

theorem pop_then_push_restores_witness:
  "wf \<lparr>data = Some [1, 2, 3, 4], count = 2, capacity = 2, element_size = 2\<rparr> \<and>
   count \<lparr>data = Some [1, 2, 3, 4], count = 2, capacity = 2, element_size = 2\<rparr> \<noteq> 0 \<and>
   pop_dynamic_array \<lparr>data = Some [1, 2, 3, 4], count = 2, capacity = 2, element_size = 2\<rparr> True
     = Inr (True, Some [3, 4],
            \<lparr>data = Some [1, 2, 3, 4], count = 1, capacity = 2, element_size = 2\<rparr>) \<and>
   push_dynamic_array AllocFail
       \<lparr>data = Some [1, 2, 3, 4], count = 1, capacity = 2, element_size = 2\<rparr> [3, 4]
     = Inr (True, \<lparr>data = Some [1, 2, 3, 4], count = 2, capacity = 2, element_size = 2\<rparr>)"
  using pop_then_push_restores
    [of "\<lparr>data = Some [1, 2, 3, 4], count = 2, capacity = 2, element_size = 2\<rparr>" AllocFail]
  by (auto simp: wf_def pop_dynamic_array_def load_bytes_def)

section \<open>Appending and reading back\<close>

lemma concat_nth_uniform:
  "\<forall>v \<in> set vs. length v = k \<Longrightarrow> i < length vs \<Longrightarrow>
   take k (drop (i * k) (concat vs)) = vs ! i"
proof (induction vs arbitrary: i)
  case Nil
  then show ?case by simp
next
  case (Cons v vs)
  show ?case
  proof (cases i)
    case 0
    with Cons.prems show ?thesis by simp
  next
    case (Suc j)
    with Cons.prems have "take k (drop (j * k) (concat vs)) = vs ! j"
      by (intro Cons.IH) simp_all
    with Suc Cons.prems show ?thesis by simp
  qed
qed

lemma unat_size_bound:
  fixes x :: size_t
  shows "unat x < 2 ^ 64"
  using unsigned_less [of x] by simp

lemma create_granted:
  "create_dynamic_array (AllocOk f) es cap
     = \<lparr>data = Some (map f [0..<unat (es * cap)]), count = 0, capacity = cap,
        element_size = es\<rparr>"
  by (simp add: create_dynamic_array_def malloc_def zeroed_def)

lemma create_refused:
  "refuses r \<Longrightarrow> create_dynamic_array r es cap = zeroed"
  by (cases r) (simp_all add: create_dynamic_array_def malloc_def refuses_def)

lemma alloc_cases:
  obtains f where "r = AllocOk f" | "refuses r"
  by (cases r) (simp_all add: refuses_def)

lemma create_stored:
  assumes "element_size (create_dynamic_array r es cap) \<noteq> 0"
  shows "stored (create_dynamic_array r es cap) [] \<and>
         element_size (create_dynamic_array r es cap) = es"
proof (cases r rule: alloc_cases)
  case 2
  with assms show ?thesis by (simp add: create_refused zeroed_def)
next
  case (1 f)
  have "length (map f [0..<unat (es * cap)]) < 2 ^ 64"
    using unat_size_bound [of "es * cap"] by simp
  then show ?thesis
    unfolding 1 create_granted stored_def by simp
qed

lemma push_stored:
  assumes es: "element_size a \<noteq> 0"
    and st: "stored a vs"
    and len: "length v = unat (element_size a)"
    and push: "push_dynamic_array r a v = Inr (True, a')"
  shows "stored a' (vs @ [v]) \<and> element_size a' = element_size a"
proof -
  let ?es = "unat (element_size a)"
  let ?n = "length vs"
  from st obtain blk where blk: "data a = Some blk" and
    bound: "length blk < 2 ^ 64" and cnt: "unat (count a) = ?n" and
    fits: "?n * ?es \<le> length blk" and pre: "take (?n * ?es) blk = concat vs"
    by (auto simp: stored_def split: option.splits)
  have "unat (count a) * ?es < 2 ^ 64"
    using fits bound cnt by simp
  then have off: "unat (count a * element_size a) = ?n * ?es"
    using unat_mult_size [of "count a" "element_size a"] cnt by simp
  from push_success [OF push] obtain blk1 cap1 where
    grow: "if count a = capacity a
           then realloc r (data a) (unat (element_size a * (capacity a * 2))) = Granted blk1 \<and>
                cap1 = capacity a * 2
           else data a = Some blk1 \<and> cap1 = capacity a" and
    room: "?n * ?es + ?es \<le> length blk1" and
    a': "a' = a\<lparr>capacity := cap1,
                 data := Some (take (?n * ?es) blk1 @ take ?es v @ drop (?n * ?es + ?es) blk1),
                 count := count a + 1\<rparr>"
    unfolding off by blast
  have bound1: "length blk1 < 2 ^ 64"
  proof (cases "count a = capacity a")
    case True
    with grow have "length blk1 = unat (element_size a * (capacity a * 2))"
      by (auto dest: realloc_length)
    then show ?thesis using unat_size_bound [of "element_size a * (capacity a * 2)"] by simp
  next
    case False
    with grow blk bound show ?thesis by simp
  qed
  have pre1: "take (?n * ?es) blk1 = concat vs"
  proof (cases "count a = capacity a")
    case True
    with grow blk have re: "realloc r (Some blk) (unat (element_size a * (capacity a * 2))) = Granted blk1"
      by simp
    have "?n * ?es \<le> unat (element_size a * (capacity a * 2))"
      using room realloc_length [OF re] by simp
    from realloc_keeps_prefix [OF re this fits] pre show ?thesis by simp
  next
    case False
    with grow blk pre show ?thesis by simp
  qed
  have pos: "0 < ?es" using es by (simp add: unat_gt_0)
  then have "?n * 1 + 1 \<le> ?n * ?es + ?es"
    by (intro add_mono mult_le_mono2) simp_all
  then have "?n + 1 \<le> ?n * ?es + ?es" by simp
  with room bound1 have "unat (count a) + unat (1 :: size_t) < 2 ^ 64"
    using cnt by simp
  then have cnt1: "unat (count a + 1) = ?n + 1"
    using unat_add_lem [of "count a" 1] cnt by simp
  let ?blk2 = "take (?n * ?es) blk1 @ take ?es v @ drop (?n * ?es + ?es) blk1"
  have lc: "length (concat vs) = ?n * ?es"
    using arg_cong [OF pre1, of length] room by simp
  have l2: "length ?blk2 = length blk1"
    using room len by simp
  have "?blk2 = (concat vs @ v) @ drop (?n * ?es + ?es) blk1"
    using pre1 len by simp
  moreover have "take (length (concat vs @ v)) ((concat vs @ v) @ ys) = concat vs @ v" for ys
    by simp
  ultimately have "take (length (concat vs @ v)) ?blk2 = concat vs @ v"
    by (simp only:)
  then have t2: "take ((?n + 1) * ?es) ?blk2 = concat (vs @ [v])"
    using lc len by (simp add: algebra_simps)
  have "(?n + 1) * ?es \<le> length ?blk2"
    using room l2 by (simp add: algebra_simps)
  with t2 l2 bound1 cnt1 have "stored a' (vs @ [v])"
    unfolding a' stored_def by simp
  then show ?thesis by (simp add: a')
qed

lemma push_all_stored:
  assumes "element_size a \<noteq> 0" "stored a vs"
    "\<forall>x \<in> set xs. length (snd x) = unat (element_size a)"
    "push_all a xs = Some a'"
  shows "stored a' (vs @ map snd xs) \<and> element_size a' = element_size a"
  using assms
proof (induction xs arbitrary: a vs)
  case Nil
  then show ?case by simp
next
  case (Cons x xs)
  obtain r v where x: "x = (r, v)" by (cases x)
  from Cons.prems(4) obtain a1 where
    p1: "push_dynamic_array r a v = Inr (True, a1)" and rest: "push_all a1 xs = Some a'"
    unfolding x by (auto split: sum.splits bool.splits prod.splits)
  have len: "length v = unat (element_size a)"
    using Cons.prems(3) x by simp
  from push_stored [OF Cons.prems(1,2) len p1] have
    st1: "stored a1 (vs @ [v])" and es1: "element_size a1 = element_size a"
    by simp_all
  have "stored a' ((vs @ [v]) @ map snd xs) \<and> element_size a' = element_size a1"
    using Cons.prems(1,3) es1 st1 rest by (intro Cons.IH) simp_all
  then show ?case by (simp add: x es1)
qed

lemma stored_get:
  assumes es: "element_size a \<noteq> 0" and st: "stored a vs"
    and len: "\<forall>v \<in> set vs. length v = unat (element_size a)"
    and i: "i < length vs"
  shows "get_dynamic_array_element a (of_nat i) = Some (i * unat (element_size a))"
    and "load_element a (i * unat (element_size a)) = Inr (vs ! i)"
proof -
  let ?es = "unat (element_size a)"
  let ?n = "length vs"
  from st obtain blk where blk: "data a = Some blk" and
    bound: "length blk < 2 ^ 64" and cnt: "unat (count a) = ?n" and
    fits: "?n * ?es \<le> length blk" and pre: "take (?n * ?es) blk = concat vs"
    by (auto simp: stored_def split: option.splits)
  have pos: "0 < ?es" using es by (simp add: unat_gt_0)
  have ile: "(i + 1) * ?es \<le> ?n * ?es"
    using i by (intro mult_le_mono1) simp
  have i64: "i < 2 ^ 64"
    using i cnt unat_size_bound [of "count a"] by simp
  then have ui: "unat (of_nat i :: size_t) = i"
    by (simp add: unat_of_nat take_bit_nat_eq_self)
  have lt: "(of_nat i :: size_t) < count a"
    using i cnt ui by (simp add: word_less_nat_alt)
  have "unat (element_size a) * unat (of_nat i :: size_t) < 2 ^ 64"
    using ile fits bound ui by (simp add: algebra_simps)
  then have off: "unat (element_size a * of_nat i) = i * ?es"
    using unat_mult_size [of "element_size a" "of_nat i"] ui by (simp add: mult.commute)
  from lt have "\<not> count a \<le> of_nat i" by simp
  then show "get_dynamic_array_element a (of_nat i) = Some (i * ?es)"
    by (simp add: get_dynamic_array_element_def off)
  have room: "i * ?es + ?es \<le> length blk"
    using ile fits by (simp add: algebra_simps)
  have "take ?es (drop (i * ?es) blk) = take ?es (drop (i * ?es) (take (?n * ?es) blk))"
    using ile by (simp add: drop_take algebra_simps)
  also have "\<dots> = vs ! i"
    unfolding pre using len i by (rule concat_nth_uniform)
  finally show "load_element a (i * ?es) = Inr (vs ! i)"
    using room by (simp add: load_element_def load_bytes_def blk)
qed

lemma stored_get_end:
  assumes "stored a vs"
  shows "get_dynamic_array_element a (of_nat (length vs)) = None"
proof -
  from assms have "unat (count a) = length vs"
    by (auto simp: stored_def split: option.splits)
  moreover have "word_of_nat (unat (count a)) = count a"
    by simp
  ultimately have "of_nat (length vs) = count a"
    by simp
  then show ?thesis by (simp add: get_dynamic_array_element_def)
qed

text \<open>
  Claim C6. Take the array returned by a construction whose element size is not zero (so
  the construction obtained storage, and the element size is the requested one), and
  append \<open>N\<close> elements of that size, every append returning \<^verbatim>\<open>true\<close>. Then for each \<open>i < N\<close> the get at index \<open>i\<close> returns a pointer, at offset
  \<open>i * element_size\<close>, and the element read through it is the \<open>i\<close>-th appended value;
  the get at index \<open>N\<close> returns \<^verbatim>\<open>NULL\<close>.
\<close>

theorem appends_then_gets:
  assumes "a0 = create_dynamic_array r0 es cap"
    and "element_size a0 \<noteq> 0"
    and "\<forall>x \<in> set xs. length (snd x) = unat (element_size a0)"
    and "push_all a0 xs = Some a"
  shows "(\<forall>i < length xs.
            get_dynamic_array_element a (of_nat i) = Some (i * unat (element_size a)) \<and>
            load_element a (i * unat (element_size a)) = Inr (snd (xs ! i))) \<and>
         get_dynamic_array_element a (of_nat (length xs)) = None"
proof -
  from create_stored [of r0 es cap] assms(1,2) have st0: "stored a0 []"
    by simp
  from push_all_stored [OF assms(2) st0 assms(3,4)] have
    st: "stored a (map snd xs)" and es: "element_size a = element_size a0"
    by simp_all
  have len: "\<forall>v \<in> set (map snd xs). length v = unat (element_size a)"
    using assms(3) es by simp
  have ne: "element_size a \<noteq> 0" using assms(2) es by simp
  have "get_dynamic_array_element a (of_nat i) = Some (i * unat (element_size a)) \<and>
        load_element a (i * unat (element_size a)) = Inr (snd (xs ! i))"
    if "i < length xs" for i
    using stored_get [OF ne st len, of i] that by simp
  moreover have "get_dynamic_array_element a (of_nat (length xs)) = None"
    using stored_get_end [OF st] by simp
  ultimately show ?thesis by blast
qed

theorem appends_then_gets_witness:
  "element_size (create_dynamic_array (AllocOk zero_fill) 4 2) \<noteq> 0 \<and>
   push_all (create_dynamic_array (AllocOk zero_fill) 4 2)
      [(AllocFail, [10, 0, 0, 0]), (AllocFail, [20, 0, 0, 0]), (AllocOk zero_fill, [30, 0, 0, 0])]
     = Some \<lparr>data = Some [10, 0, 0, 0, 20, 0, 0, 0, 30, 0, 0, 0, 0, 0, 0, 0],
             count = 3, capacity = 4, element_size = 4\<rparr> \<and>
   get_dynamic_array_element
      \<lparr>data = Some [10, 0, 0, 0, 20, 0, 0, 0, 30, 0, 0, 0, 0, 0, 0, 0],
       count = 3, capacity = 4, element_size = 4\<rparr> 2 = Some 8 \<and>
   load_element
      \<lparr>data = Some [10, 0, 0, 0, 20, 0, 0, 0, 30, 0, 0, 0, 0, 0, 0, 0],
       count = 3, capacity = 4, element_size = 4\<rparr> 8 = Inr [30, 0, 0, 0] \<and>
   get_dynamic_array_element
      \<lparr>data = Some [10, 0, 0, 0, 20, 0, 0, 0, 30, 0, 0, 0, 0, 0, 0, 0],
       count = 3, capacity = 4, element_size = 4\<rparr> 3 = None"
proof -
  let ?init = "create_dynamic_array (AllocOk zero_fill) 4 2"
  let ?xs = "[(AllocFail, [10, 0, 0, 0]), (AllocFail, [20, 0, 0, 0]),
              (AllocOk zero_fill, [30, 0, 0, 0 :: byte])]"
  let ?fin = "\<lparr>data = Some [10, 0, 0, 0, 20, 0, 0, 0, 30, 0, 0, 0, 0, 0, 0, 0],
             count = 3, capacity = 4, element_size = 4\<rparr>"
  have h2: "element_size ?init \<noteq> 0" by code_simp
  have h3: "\<forall>x \<in> set ?xs. length (snd x) = unat (element_size ?init)" by code_simp
  have h4: "push_all ?init ?xs = Some ?fin" by code_simp
  note all = appends_then_gets [OF refl h2 h3 h4]
  have "(2 :: nat) < length ?xs" by simp
  with all have
    "get_dynamic_array_element ?fin (of_nat 2) = Some (2 * unat (element_size ?fin)) \<and>
     load_element ?fin (2 * unat (element_size ?fin)) = Inr (snd (?xs ! 2))"
    by blast
  moreover from all have "get_dynamic_array_element ?fin (of_nat (length ?xs)) = None"
    by blast
  ultimately have
    "get_dynamic_array_element ?fin 2 = Some 8 \<and>
     load_element ?fin 8 = Inr [30, 0, 0, 0] \<and>
     get_dynamic_array_element ?fin 3 = None"
    by simp
  then show ?thesis using h2 h4 by simp
qed

section \<open>The two variants\<close>

lemma zeroed_iff:
  "a = zeroed \<longleftrightarrow>
     data a = None \<and> count a = 0 \<and> capacity a = 0 \<and> element_size a = 0"
  by (cases a) (auto simp: zeroed_def)

lemma reachable_null_zeroed:
  "reachable a \<Longrightarrow> data a = None \<Longrightarrow> a = zeroed"
proof (induction rule: reachable.induct)
  case (r_create r es cap)
  then show ?case
    by (cases r rule: alloc_cases) (simp_all add: create_granted create_refused)
next
  case (r_push a r d b a')
  show ?case
  proof (cases b)
    case False
    with r_push.hyps(2) have "a' = a" by (simp add: push_fail_unchanged)
    with r_push show ?thesis by simp
  next
    case True
    with r_push.hyps(2) have "push_dynamic_array r a d = Inr (True, a')" by simp
    from push_success [OF this] r_push.prems show ?thesis by auto
  qed
next
  case (r_clear a)
  then show ?case by (simp add: clear_dynamic_array_def zeroed_iff)
next
  case (r_free a)
  then show ?case by (auto simp: free_dynamic_array_def zeroed_iff split: if_splits)
next
  case (r_reserve a r n b a')
  then show ?case
    by (auto simp: reserve_dynamic_array_def Let_def split: if_splits realloc_result.splits)
next
  case (r_shrink a r b a')
  then show ?case
    by (auto simp: shrink_dynamic_array_def Let_def zeroed_iff
             split: if_splits realloc_result.splits)
next
  case (r_pop a want b out a')
  show ?case
  proof (cases "count a = 0")
    case True
    with r_pop.hyps(2) have "a' = a" by (simp add: pop_dynamic_array_def)
    with r_pop show ?thesis by simp
  next
    case False
    with r_pop.hyps(2) have "data a' = data a"
      by (auto simp: pop_dynamic_array_def Let_def split: if_splits sum.splits)
    with r_pop have "a = zeroed" by simp
    with False show ?thesis by (simp add: zeroed_def)
  qed
next
  case (r_copy src r dst b dst')
  show ?case
  proof (cases "malloc r (unat (element_size src * capacity src))")
    case None
    with r_copy.hyps(2) show ?thesis
      by (auto simp: copy_dynamic_array_def Let_def zeroed_iff)
  next
    case (Some blk)
    with r_copy.hyps(2) have "data dst' \<noteq> None"
      by (auto simp: copy_dynamic_array_def Let_def store_bytes_def load_bytes_def
               split: option.splits sum.splits if_splits)
    with r_copy.prems show ?thesis by simp
  qed
qed

lemma create_variants:
  "create_dynamic_array_void r es cap = create_dynamic_array r es cap"
  by (simp add: create_dynamic_array_void_def create_dynamic_array_def)

lemma push_variants:
  "push_dynamic_array_void r a d = map_sum id snd (push_dynamic_array r a d)"
  by (simp add: push_dynamic_array_void_def push_dynamic_array_def Let_def
           split: option.splits sum.splits realloc_result.splits)

lemma get_variants:
  "get_dynamic_array_element_void a i = get_dynamic_array_element a i"
  by (simp add: get_dynamic_array_element_void_def get_dynamic_array_element_def not_le)

lemma clear_variants:
  "clear_dynamic_array_void a = snd (clear_dynamic_array a)"
  by (simp add: clear_dynamic_array_void_def clear_dynamic_array_def)

lemma free_variants:
  assumes "data a = None \<longrightarrow> a = zeroed"
  shows "free_dynamic_array_void a = snd (free_dynamic_array a)"
proof (cases "data a")
  case None
  with assms have "a = zeroed" by simp
  then show ?thesis
    by (simp add: free_dynamic_array_void_def free_dynamic_array_def zeroed_def)
next
  case (Some blk)
  then show ?thesis
    by (simp add: free_dynamic_array_void_def free_dynamic_array_def)
qed

lemma reserve_variants:
  "reserve_dynamic_array_void r a n = map_sum id snd (reserve_dynamic_array r a n)"
proof (cases "n \<le> capacity a")
  case True
  then have "\<not> capacity a < n" by simp
  with True show ?thesis
    by (simp add: reserve_dynamic_array_void_def reserve_dynamic_array_def)
next
  case False
  then have "capacity a < n" by simp
  with False show ?thesis
    by (simp add: reserve_dynamic_array_void_def reserve_dynamic_array_def Let_def
             split: realloc_result.splits)
qed

lemma shrink_variants:
  "shrink_dynamic_array_void r a = map_sum id snd (shrink_dynamic_array r a)"
  by (simp add: shrink_dynamic_array_void_def shrink_dynamic_array_def Let_def
           split: realloc_result.splits)

lemma pop_variants:
  "pop_dynamic_array_void a want = pop_dynamic_array a want"
  by (simp add: pop_dynamic_array_void_def pop_dynamic_array_def)

lemma copy_variants:
  "copy_dynamic_array_void r src dst = map_sum id snd (copy_dynamic_array r src dst)"
  by (simp add: copy_dynamic_array_void_def copy_dynamic_array_def Let_def
           split: option.splits sum.splits)

text \<open>
  Claim C10. On every array a program can reach through the operations, each function of
  the \<^verbatim>\<open>void\<close> variant leaves the state that its \<^verbatim>\<open>bool\<close> twin leaves, and faults
  where the twin faults; \<^verbatim>\<open>get\<close> and \<^verbatim>\<open>pop\<close> return the same values in both.
\<close>

theorem variants_state_equivalent:
  assumes "reachable a"
  shows "create_dynamic_array_void r es cap = create_dynamic_array r es cap \<and>
         push_dynamic_array_void r a d = map_sum id snd (push_dynamic_array r a d) \<and>
         get_dynamic_array_element_void a i = get_dynamic_array_element a i \<and>
         clear_dynamic_array_void a = snd (clear_dynamic_array a) \<and>
         free_dynamic_array_void a = snd (free_dynamic_array a) \<and>
         reserve_dynamic_array_void r a n = map_sum id snd (reserve_dynamic_array r a n) \<and>
         shrink_dynamic_array_void r a = map_sum id snd (shrink_dynamic_array r a) \<and>
         pop_dynamic_array_void a want = pop_dynamic_array a want \<and>
         copy_dynamic_array_void r a dst = map_sum id snd (copy_dynamic_array r a dst)"
proof -
  from assms have "data a = None \<longrightarrow> a = zeroed"
    by (simp add: reachable_null_zeroed)
  then have "free_dynamic_array_void a = snd (free_dynamic_array a)"
    by (rule free_variants)
  then show ?thesis
    by (simp only: create_variants push_variants get_variants clear_variants reserve_variants
          shrink_variants pop_variants copy_variants simp_thms)
qed

theorem variants_state_equivalent_witness:
  "reachable (create_dynamic_array (AllocOk zero_fill) 4 2) \<and>
   push_dynamic_array_void AllocFail (create_dynamic_array (AllocOk zero_fill) 4 2) [10, 0, 0, 0]
     = Inr \<lparr>data = Some [10, 0, 0, 0, 0, 0, 0, 0], count = 1, capacity = 2, element_size = 4\<rparr> \<and>
   push_dynamic_array AllocFail (create_dynamic_array (AllocOk zero_fill) 4 2) [10, 0, 0, 0]
     = Inr (True,
        \<lparr>data = Some [10, 0, 0, 0, 0, 0, 0, 0], count = 1, capacity = 2, element_size = 4\<rparr>) \<and>
   free_dynamic_array_void (create_dynamic_array (AllocOk zero_fill) 4 2) = zeroed \<and>
   snd (free_dynamic_array (create_dynamic_array (AllocOk zero_fill) 4 2)) = zeroed"
proof -
  have r: "reachable (create_dynamic_array (AllocOk zero_fill) 4 2)"
    by (rule reachable.r_create)
  have p: "push_dynamic_array AllocFail (create_dynamic_array (AllocOk zero_fill) 4 2) [10, 0, 0, 0]
     = Inr (True,
        \<lparr>data = Some [10, 0, 0, 0, 0, 0, 0, 0], count = 1, capacity = 2, element_size = 4\<rparr>)"
    by code_simp
  have f: "snd (free_dynamic_array (create_dynamic_array (AllocOk zero_fill) 4 2)) = zeroed"
    by code_simp
  from variants_state_equivalent [OF r, of AllocFail 0 0 "[10, 0, 0, 0]" 0 0 False zeroed] r p f
  show ?thesis by simp
qed

text \<open>
  Reachability is needed for \<^verbatim>\<open>free_dynamic_array\<close> only: without storage the
  \<^verbatim>\<open>bool\<close> variant returns early and keeps the size fields, while the \<^verbatim>\<open>void\<close> variant
  zeroes them. No operation leaves nonzero size fields without storage.
\<close>

lemma free_variants_differ_without_storage:
  "free_dynamic_array_void \<lparr>data = None, count = 0, capacity = 0, element_size = 4\<rparr>
     \<noteq> snd (free_dynamic_array \<lparr>data = None, count = 0, capacity = 0, element_size = 4\<rparr>)"
  by (simp add: free_dynamic_array_void_def free_dynamic_array_def)

section \<open>Which operations keep the count within the capacity\<close>

lemma others_keep_count_le_capacity:
  assumes "count a \<le> capacity a"
  shows "count (create_dynamic_array r es cap) \<le> capacity (create_dynamic_array r es cap)"
    and "count (snd (clear_dynamic_array a)) \<le> capacity (snd (clear_dynamic_array a))"
    and "count (snd (free_dynamic_array a)) \<le> capacity (snd (free_dynamic_array a))"
    and "reserve_dynamic_array r a n = Inr (b, a') \<Longrightarrow> count a' \<le> capacity a'"
    and "shrink_dynamic_array r a = Inr (b, a') \<Longrightarrow> count a' \<le> capacity a'"
    and "pop_dynamic_array a want = Inr (b, out, a') \<Longrightarrow> count a' \<le> capacity a'"
    and "copy_dynamic_array r a dst = Inr (b, dst') \<Longrightarrow> count dst' \<le> capacity dst'"
proof -
  show "count (create_dynamic_array r es cap) \<le> capacity (create_dynamic_array r es cap)"
    by (cases r rule: alloc_cases) (simp_all add: create_granted create_refused zeroed_def)
  show "count (snd (clear_dynamic_array a)) \<le> capacity (snd (clear_dynamic_array a))"
    by (simp add: clear_dynamic_array_def)
  show "count (snd (free_dynamic_array a)) \<le> capacity (snd (free_dynamic_array a))"
    using assms by (simp add: free_dynamic_array_def)
  show "count a' \<le> capacity a'" if "reserve_dynamic_array r a n = Inr (b, a')"
    using that assms
    by (auto simp: reserve_dynamic_array_def Let_def split: if_splits realloc_result.splits)
  show "count a' \<le> capacity a'" if "shrink_dynamic_array r a = Inr (b, a')"
    using that assms
    by (auto simp: shrink_dynamic_array_def Let_def split: if_splits realloc_result.splits)
  show "count a' \<le> capacity a'" if "pop_dynamic_array a want = Inr (b, out, a')"
  proof (cases "count a = 0")
    case True
    with that assms show ?thesis by (simp add: pop_dynamic_array_def)
  next
    case False
    then have "count a - 1 < count a" by (rule word_pred_less)
    with assms have "count a - 1 \<le> capacity a" by simp
    moreover from that False have "count a' = count a - 1 \<and> capacity a' = capacity a"
      by (auto simp: pop_dynamic_array_def Let_def split: if_splits sum.splits)
    ultimately show ?thesis by simp
  qed
  show "count dst' \<le> capacity dst'" if "copy_dynamic_array r a dst = Inr (b, dst')"
    using that assms
    by (auto simp: copy_dynamic_array_def Let_def split: if_splits option.splits sum.splits)
qed

lemma push_keeps_count_le_capacity:
  assumes "count a \<le> capacity a" "capacity a \<noteq> 0" "unat (capacity a) < 2 ^ 63"
    and "push_dynamic_array r a d = Inr (b, a')"
  shows "count a' \<le> capacity a'"
proof (cases b)
  case False
  with assms(4) have "a' = a" by (simp add: push_fail_unchanged)
  with assms(1) show ?thesis by simp
next
  case True
  with assms(4) have "push_dynamic_array r a d = Inr (True, a')" by simp
  from push_success [OF this] obtain blk1 cap1 where
    g: "if count a = capacity a
        then realloc r (data a) (unat (element_size a * (capacity a * 2))) = Granted blk1 \<and>
             cap1 = capacity a * 2
        else data a = Some blk1 \<and> cap1 = capacity a" and
    a': "a' = a\<lparr>capacity := cap1,
                 data := Some (take (unat (count a * element_size a)) blk1 @
                               take (unat (element_size a)) d @
                               drop (unat (count a * element_size a) + unat (element_size a)) blk1),
                 count := count a + 1\<rparr>"
    by blast
  from a' have c: "count a' = count a + 1" "capacity a' = cap1"
    by simp_all
  from g have cap1: "cap1 = (if count a = capacity a then capacity a * 2 else capacity a)"
    by (simp split: if_splits)
  have le: "unat (count a) \<le> unat (capacity a)"
    using assms(1) by (simp add: word_le_nat_alt)
  with assms(3) have "unat (count a) + unat (1 :: size_t) < 2 ^ 64" by simp
  then have u1: "unat (count a + 1) = unat (count a) + 1"
    using unat_add_lem [of "count a" 1] by simp
  show ?thesis
  proof (cases "count a = capacity a")
    case True
    have "unat (capacity a) * unat (2 :: size_t) < 2 ^ 64"
      using assms(3) by simp
    then have "unat (capacity a * 2) = unat (capacity a) * 2"
      using unat_mult_size [of "capacity a" 2] by simp
    moreover have "0 < unat (capacity a)" using assms(2) by (simp add: unat_gt_0)
    ultimately show ?thesis
      using True c cap1 u1 by (simp add: word_le_nat_alt)
  next
    case False
    with assms(1) have "count a < capacity a" by simp
    then have "unat (count a) < unat (capacity a)"
      by (simp add: word_less_nat_alt)
    with False c cap1 u1 show ?thesis by (simp add: word_le_nat_alt)
  qed
qed

end
